theory Spec2Isabelle
  imports Complex_Main "HOL-Library.Word" "HOL-Library.Multiset" "HOL-Library.Monad_Syntax"
    "HOL-Library.AList"
begin

unbundle bit_operations_syntax

section \<open>Characters and strings as Python sees them\<close>

text \<open>
  Strings are lists of 8-bit characters, so the model covers the code points 0..255.
  On that range the classes below are exactly what Python 3 gives for
  \<^verbatim>\<open>str.isspace\<close> / \<^verbatim>\<open>\s\<close>, \<^verbatim>\<open>\d\<close>, \<^verbatim>\<open>\w\<close> and \<^verbatim>\<open>str.lower\<close>.
\<close>

definition code :: "char \<Rightarrow> nat" where
  "code c = of_char c"

definition is_space :: "char \<Rightarrow> bool" where
  "is_space c = (code c \<in> {9, 10, 11, 12, 13, 28, 29, 30, 31, 32, 133, 160})"

definition is_digit :: "char \<Rightarrow> bool" where
  "is_digit c = (48 \<le> code c \<and> code c \<le> 57)"

definition is_word :: "char \<Rightarrow> bool" where
  "is_word c = (is_digit c \<or> (65 \<le> code c \<and> code c \<le> 90) \<or> code c = 95
     \<or> (97 \<le> code c \<and> code c \<le> 122)
     \<or> code c \<in> {170, 178, 179, 181, 185, 186, 188, 189, 190}
     \<or> (192 \<le> code c \<and> code c \<le> 214) \<or> (216 \<le> code c \<and> code c \<le> 246)
     \<or> 248 \<le> code c)"

definition digit_val :: "char \<Rightarrow> nat" where
  "digit_val c = code c - 48"

definition digit_char :: "nat \<Rightarrow> char" where
  "digit_char n = char_of (48 + n)"

text \<open>\<^verbatim>\<open>str(n)\<close> for an integer: decimal digits, a minus sign for negatives.\<close>

function dec_digits :: "nat \<Rightarrow> string" where
  "dec_digits n = (if n < 10 then [digit_char n]
                   else dec_digits (n div 10) @ [digit_char (n mod 10)])"
  by pat_completeness auto
termination
  by (relation "measure id") auto

definition py_str_int :: "int \<Rightarrow> string" where
  "py_str_int i = (if i < 0 then CHR ''-'' # dec_digits (nat (- i)) else dec_digits (nat i))"

text \<open>\<^verbatim>\<open>sep.join(xs)\<close>\<close>

fun py_join :: "string \<Rightarrow> string list \<Rightarrow> string" where
  "py_join sep [] = []"
| "py_join sep [x] = x"
| "py_join sep (x # y # ys) = x @ sep @ py_join sep (y # ys)"

section \<open>Checkpoint flags (fb\_parser.py)\<close>

text \<open>
  \<^verbatim>\<open>decode_checkpoint_flags\<close>: the names are appended in the order of the four tests,
  and a nonzero value none of whose four low bits is set falls back to
  \<^verbatim>\<open>UNKNOWN(<flags>)\<close>.
\<close>

definition flag_names :: "int \<Rightarrow> string list" where
  "flag_names flags =
     (if flags AND 0x01 \<noteq> 0 then [''LOCK_REQUEST''] else []) @
     (if flags AND 0x02 \<noteq> 0 then [''LOCK_WAIT''] else []) @
     (if flags AND 0x04 \<noteq> 0 then [''LOCK_RELEASE''] else []) @
     (if flags AND 0x08 \<noteq> 0 then [''MOVE_PREPARE''] else [])"

definition decode_checkpoint_flags :: "int \<Rightarrow> string" where
  "decode_checkpoint_flags flags =
     (if flags = 0 then ''COMPLETED''
      else let names = flag_names flags in
        if names \<noteq> [] then py_join ''|'' names
        else ''UNKNOWN('' @ py_str_int flags @ '')'')"

text \<open>
  The bitmask table of the specification, and the label the specification describes:
  the names of the set bits among the four, joined by a bar.
\<close>

definition FLAG_TABLE :: "(nat \<times> string) list" where
  "FLAG_TABLE = [(0, ''LOCK_REQUEST''), (1, ''LOCK_WAIT''), (2, ''LOCK_RELEASE''),
                 (3, ''MOVE_PREPARE'')]"

definition spec_set_bit_names :: "int \<Rightarrow> string list" where
  "spec_set_bit_names flags = map snd (filter (\<lambda>(b, name). bit flags b) FLAG_TABLE)"

definition spec_flag_label :: "int \<Rightarrow> string" where
  "spec_flag_label flags =
     (if flags = 0 then ''COMPLETED'' else py_join ''|'' (spec_set_bit_names flags))"

section \<open>Fixed 28-byte records (parse\_edge\_log.py, log\_parser.py, parse\_edge\_transit\_log.py)\<close>

type_synonym byte = "8 word"

definition RECORD_SIZE :: nat where
  "RECORD_SIZE = 28"

text \<open>Little-endian unsigned integers, as \<^verbatim>\<open>struct\<close> reads and writes them.\<close>

fun le_int :: "byte list \<Rightarrow> int" where
  "le_int [] = 0"
| "le_int (b # bs) = uint b + 256 * le_int bs"

fun le_bytes :: "nat \<Rightarrow> int \<Rightarrow> byte list" where
  "le_bytes 0 v = []"
| "le_bytes (Suc n) v = word_of_int (v mod 256) # le_bytes n (v div 256)"

text \<open>
  A Python float that was read from a binary32 field is a double whose value is a
  binary32 value; it is carried here by the binary32 bit pattern of that value. Reading
  the field converts binary32 to double, and on IEEE 754 hardware that conversion turns
  a signalling NaN into the quiet NaN with the same payload (bit 22 set); writing the
  field converts back, which changes no pattern that a read can produce.
\<close>

type_synonym f32 = "32 word"

definition is_snan :: "f32 \<Rightarrow> bool" where
  "is_snan w = (drop_bit 23 w AND 0xFF = 0xFF \<and> w AND 0x7FFFFF \<noteq> 0 \<and> \<not> bit w 22)"

definition unpack_f32 :: "byte list \<Rightarrow> f32" where
  "unpack_f32 bs =
     (let w = word_of_int (le_int bs) in if is_snan w then w OR 0x400000 else w)"

definition pack_f32 :: "f32 \<Rightarrow> byte list" where
  "pack_f32 w = le_bytes 4 (uint w)"

record EdgeTransitRecord =
  timestamp :: int
  worker_id :: int
  fab_id :: int
  edge_id :: int
  veh_id :: int
  enter_time :: int
  exit_time :: int
  edge_length :: f32
  edge_type :: int

text \<open>\<^verbatim>\<open>struct.unpack('<IBBHIIIfB3x', data)\<close> on 28 bytes; the three pad bytes are skipped.\<close>

definition slice :: "nat \<Rightarrow> nat \<Rightarrow> 'a list \<Rightarrow> 'a list" where
  "slice off n xs = take n (drop off xs)"

definition unpack_record :: "byte list \<Rightarrow> EdgeTransitRecord" where
  "unpack_record data =
     \<lparr> timestamp = le_int (slice 0 4 data),
       worker_id = le_int (slice 4 1 data),
       fab_id = le_int (slice 5 1 data),
       edge_id = le_int (slice 6 2 data),
       veh_id = le_int (slice 8 4 data),
       enter_time = le_int (slice 12 4 data),
       exit_time = le_int (slice 16 4 data),
       edge_length = unpack_f32 (slice 20 4 data),
       edge_type = le_int (slice 24 1 data) \<rparr>"

text \<open>
  \<^verbatim>\<open>struct.pack('<IBBHIIIfB3x', ...)\<close>: an integer outside the range of its field
  raises \<^verbatim>\<open>struct.error\<close> (the value \<open>None\<close>); the pad bytes are written as zero.
\<close>

definition pack_uint :: "nat \<Rightarrow> int \<Rightarrow> byte list option" where
  "pack_uint n v = (if 0 \<le> v \<and> v < 256 ^ n then Some (le_bytes n v) else None)"

definition pack_record :: "EdgeTransitRecord \<Rightarrow> byte list option" where
  "pack_record r = do {
     b0 \<leftarrow> pack_uint 4 (timestamp r);
     b4 \<leftarrow> pack_uint 1 (worker_id r);
     b5 \<leftarrow> pack_uint 1 (fab_id r);
     b6 \<leftarrow> pack_uint 2 (edge_id r);
     b8 \<leftarrow> pack_uint 4 (veh_id r);
     b12 \<leftarrow> pack_uint 4 (enter_time r);
     b16 \<leftarrow> pack_uint 4 (exit_time r);
     b24 \<leftarrow> pack_uint 1 (edge_type r);
     Some (b0 @ b4 @ b5 @ b6 @ b8 @ b12 @ b16 @ pack_f32 (edge_length r) @ b24 @ [0, 0, 0])
   }"

text \<open>
  \<^verbatim>\<open>parse_log_file\<close>: read 28 bytes at a time; a short read ends the loop.
  The file is the list of its bytes, \<^verbatim>\<open>f.read(n)\<close> takes the next \<open>n\<close>.
\<close>

function parse_log_file :: "byte list \<Rightarrow> EdgeTransitRecord list" where
  "parse_log_file f =
     (let data = take RECORD_SIZE f in
      if length data < RECORD_SIZE then []
      else unpack_record data # parse_log_file (drop RECORD_SIZE f))"
  by pat_completeness auto
termination
  by (relation "measure length") (auto simp: RECORD_SIZE_def)

text \<open>
  \<^verbatim>\<open>load_log\<close>: \<^verbatim>\<open>record_count = file_size // RECORD_SIZE\<close> rows of the structured
  array, each row the 28 bytes of one record (a size that is not a multiple of 28 only
  prints a warning).
\<close>

definition load_log :: "byte list \<Rightarrow> byte list list" where
  "load_log f =
     (let file_size = length f; record_count = file_size div RECORD_SIZE in
      map (\<lambda>i. slice (i * RECORD_SIZE) RECORD_SIZE f) [0..<record_count])"

text \<open>Derived fields of a record.\<close>

definition transit_time :: "EdgeTransitRecord \<Rightarrow> int" where
  "transit_time r = exit_time r - enter_time r"

text \<open>
  The value of a Python float: a finite real, an infinity or NaN. Arithmetic on the
  finite values is exact here (rounding to the nearest double is not modelled).
\<close>

datatype fval = Flt real | PosInf | NegInf | NaN

definition f32_value :: "f32 \<Rightarrow> fval" where
  "f32_value w =
     (let e = unat (drop_bit 23 w AND 0xFF);
          m = unat (w AND 0x7FFFFF);
          sgn = (if bit w 31 then - 1 else 1 :: real)
      in if e = 255 then (if m = 0 then (if bit w 31 then NegInf else PosInf) else NaN)
         else if e = 0 then Flt (sgn * real m * 2 / 2 ^ 150)
         else Flt (sgn * real (2 ^ 23 + m) * 2 ^ e / 2 ^ 150))"

fun fdiv :: "fval \<Rightarrow> real \<Rightarrow> fval" where
  "fdiv (Flt x) d = Flt (x / d)"
| "fdiv PosInf d = (if d < 0 then NegInf else PosInf)"
| "fdiv NegInf d = (if d < 0 then PosInf else NegInf)"
| "fdiv NaN d = NaN"

definition speed :: "EdgeTransitRecord \<Rightarrow> fval" where
  "speed r =
     (if transit_time r \<le> 0 then Flt 0.0
      else fdiv (f32_value (edge_length r)) (real_of_int (transit_time r) / 1000.0))"

section \<open>Text log lines (sim\_log\_parser.py)\<close>

subsection \<open>String operations\<close>

text \<open>\<^verbatim>\<open>s.strip()\<close>: whitespace removed at both ends.\<close>

definition py_strip :: "string \<Rightarrow> string" where
  "py_strip s = rev (dropWhile is_space (rev (dropWhile is_space s)))"

text \<open>
  \<^verbatim>\<open>s.split(sep)\<close> for a one-character separator: always at least one part.
  (The empty case of the inner \<open>case\<close> cannot occur; it keeps the function total.)
\<close>

fun py_split :: "char \<Rightarrow> string \<Rightarrow> string list" where
  "py_split sep [] = [[]]"
| "py_split sep (c # cs) =
     (if c = sep then [] # py_split sep cs
      else (case py_split sep cs of p # ps \<Rightarrow> (c # p) # ps | [] \<Rightarrow> [[c]]))"

text \<open>\<^verbatim>\<open>xs[i]\<close>: an index out of range raises \<^verbatim>\<open>IndexError\<close>.\<close>

definition nth_opt :: "'a list \<Rightarrow> nat \<Rightarrow> 'a option" where
  "nth_opt xs i = (if i < length xs then Some (xs ! i) else None)"

text \<open>
  \<^verbatim>\<open>int(s)\<close> in base 10: surrounding whitespace is dropped (for \<^verbatim>\<open>int\<close> the
  characters 0x1C..0x1F do not count as whitespace), then an optional sign, then decimal
  digits in which single underscores may separate digits. Anything else raises
  \<^verbatim>\<open>ValueError\<close> (the value \<open>None\<close>).
\<close>

definition int_space :: "char \<Rightarrow> bool" where
  "int_space c = (code c \<in> {9, 10, 11, 12, 13, 32, 133, 160})"

fun digits_acc :: "nat \<Rightarrow> string \<Rightarrow> nat option" where
  "digits_acc a [] = Some a"
| "digits_acc a (c # cs) =
     (if is_digit c then digits_acc (a * 10 + digit_val c) cs
      else if c = CHR ''_'' then
        (case cs of
           [] \<Rightarrow> None
         | d # ds \<Rightarrow> if is_digit d then digits_acc (a * 10 + digit_val d) ds else None)
      else None)"

definition int_digits :: "string \<Rightarrow> nat option" where
  "int_digits s =
     (case s of [] \<Rightarrow> None
      | c # cs \<Rightarrow> if is_digit c then digits_acc (digit_val c) cs else None)"

definition py_int :: "string \<Rightarrow> int option" where
  "py_int s =
     (let t = rev (dropWhile int_space (rev (dropWhile int_space s))) in
      case t of
        [] \<Rightarrow> None
      | c # cs \<Rightarrow>
          if c = CHR ''-'' then map_option (\<lambda>n. - int n) (int_digits cs)
          else if c = CHR ''+'' then map_option int (int_digits cs)
          else map_option int (int_digits t))"

text \<open>\<^verbatim>\<open>s.lower()\<close> and the substring test \<^verbatim>\<open>sub in s\<close>.\<close>

definition py_lower_char :: "char \<Rightarrow> char" where
  "py_lower_char c =
     (if (65 \<le> code c \<and> code c \<le> 90) \<or> (192 \<le> code c \<and> code c \<le> 222 \<and> code c \<noteq> 215)
      then char_of (code c + 32) else c)"

definition py_lower :: "string \<Rightarrow> string" where
  "py_lower s = map py_lower_char s"

fun starts_with :: "string \<Rightarrow> string \<Rightarrow> bool" where
  "starts_with s [] = True"
| "starts_with [] (p # ps) = False"
| "starts_with (c # cs) (p # ps) = (c = p \<and> starts_with cs ps)"

fun py_in :: "string \<Rightarrow> string \<Rightarrow> bool" where
  "py_in sub [] = (sub = [])"
| "py_in sub (c # cs) = (starts_with (c # cs) sub \<or> py_in sub cs)"

text \<open>\<^verbatim>\<open>f"{s:5}"\<close>: a string padded with spaces on the right to width 5.\<close>

definition ljust :: "nat \<Rightarrow> string \<Rightarrow> string" where
  "ljust n s = s @ replicate (n - length s) CHR '' ''"

subsection \<open>Regular expressions\<close>

text \<open>
  The fragment of \<^verbatim>\<open>re\<close> the two patterns use: a literal character, a character
  class repeated exactly \<open>n\<close> times, greedy \<^verbatim>\<open>*\<close> and \<^verbatim>\<open>+\<close> over a character class,
  and capture groups around a sequence of such items. Matching is backtracking search:
  every function returns the list of ways to match, in the order \<^verbatim>\<open>re\<close> tries them
  (a greedy repetition tries the longest run first), and \<^verbatim>\<open>pattern.match\<close>, anchored
  at the start of the string and not at its end, takes the first.
\<close>

datatype item = Lit char | Rep nat "char \<Rightarrow> bool" | Star "char \<Rightarrow> bool" | Plus "char \<Rightarrow> bool"

datatype rx = Item item | Group "item list"

fun item_matches :: "item \<Rightarrow> string \<Rightarrow> (string \<times> string) list" where
  "item_matches (Lit c) s =
     (case s of [] \<Rightarrow> [] | x # xs \<Rightarrow> if x = c then [([x], xs)] else [])"
| "item_matches (Rep n p) s =
     (if n \<le> length s \<and> list_all p (take n s) then [(take n s, drop n s)] else [])"
| "item_matches (Star p) s =
     map (\<lambda>k. (take k s, drop k s)) (rev [0..<Suc (length (takeWhile p s))])"
| "item_matches (Plus p) s =
     map (\<lambda>k. (take k s, drop k s)) (rev [1..<Suc (length (takeWhile p s))])"

fun items_matches :: "item list \<Rightarrow> string \<Rightarrow> (string \<times> string) list" where
  "items_matches [] s = [([], s)]"
| "items_matches (i # is) s =
     concat (map (\<lambda>(c, r). map (\<lambda>(c', r'). (c @ c', r')) (items_matches is r))
                 (item_matches i s))"

fun rx_matches :: "rx list \<Rightarrow> string \<Rightarrow> (string list \<times> string) list" where
  "rx_matches [] s = [([], s)]"
| "rx_matches (Item i # rs) s =
     concat (map (\<lambda>(c, r). rx_matches rs r) (item_matches i s))"
| "rx_matches (Group is # rs) s =
     concat (map (\<lambda>(c, r). map (\<lambda>(gs, r'). (c # gs, r')) (rx_matches rs r))
                 (items_matches is s))"

definition re_match :: "rx list \<Rightarrow> string \<Rightarrow> string list option" where
  "re_match pat s = (case rx_matches pat s of [] \<Rightarrow> None | (gs, r) # ms \<Rightarrow> Some gs)"

text \<open>\<^verbatim>\<open>match.group(n)\<close>, groups numbered from 1.\<close>

definition group :: "string list \<Rightarrow> nat \<Rightarrow> string" where
  "group gs n = gs ! (n - 1)"

definition not_rbracket :: "char \<Rightarrow> bool" where
  "not_rbracket c = (c \<noteq> CHR '']'')"

definition not_newline :: "char \<Rightarrow> bool" where
  "not_newline c = (c \<noteq> CHR 0x0A)"

definition TIMESTAMP_ITEMS :: "item list" where
  "TIMESTAMP_ITEMS =
     [Rep 2 is_digit, Lit CHR '':'', Rep 2 is_digit, Lit CHR '':'', Rep 2 is_digit,
      Lit CHR ''.'', Rep 3 is_digit]"

definition LOG_PATTERN :: "rx list" where
  "LOG_PATTERN =
     [Item (Lit CHR ''[''), Group TIMESTAMP_ITEMS, Item (Lit CHR '']''), Item (Star is_space),
      Item (Lit CHR ''[''), Group [Plus is_word], Item (Star is_space), Item (Lit CHR '']''),
        Item (Star is_space),
      Item (Lit CHR ''[''), Group [Plus not_rbracket], Item (Lit CHR '']''), Item (Star is_space),
      Item (Lit CHR ''[''), Group [Plus not_rbracket], Item (Lit CHR '']''), Item (Star is_space),
      Item (Lit CHR ''[''), Group [Plus not_rbracket], Item (Lit CHR '']''), Item (Star is_space),
      Group [Star not_newline]]"

definition VEH_PATTERN :: "rx list" where
  "VEH_PATTERN =
     [Item (Lit CHR ''v''), Item (Lit CHR ''e''), Item (Lit CHR ''h''), Item (Lit CHR '':''),
      Group [Plus is_digit]]"

subsection \<open>Log entries\<close>

record LogEntry =
  timestamp :: string
  level :: string
  scope :: string
  source :: string
  tag :: string
  message :: string
  line_num :: nat

text \<open>
  \<^verbatim>\<open>veh_id\<close>: \<open>None\<close> when the scope does not start with \<^verbatim>\<open>veh:\<close> and a digit.
  The captured group is a non-empty run of digits, on which \<^verbatim>\<open>int\<close> cannot fail.
\<close>

definition veh_id :: "LogEntry \<Rightarrow> int option" where
  "veh_id e =
     (case re_match VEH_PATTERN (scope e) of
        None \<Rightarrow> None
      | Some m \<Rightarrow> py_int (group m 1))"

definition is_global :: "LogEntry \<Rightarrow> bool" where
  "is_global e = (scope e = ''global'')"

definition file_name :: "LogEntry \<Rightarrow> string" where
  "file_name e =
     (if CHR '':'' \<in> set (source e) then py_split CHR '':'' (source e) ! 0 else source e)"

text \<open>\<^verbatim>\<open>time_ms\<close>; \<open>None\<close> stands for the \<^verbatim>\<open>IndexError\<close> or \<^verbatim>\<open>ValueError\<close> raised.\<close>

definition time_ms :: "LogEntry \<Rightarrow> int option" where
  "time_ms e = do {
     let parts = py_split CHR '':'' (timestamp e);
     p0 \<leftarrow> nth_opt parts 0;
     h \<leftarrow> py_int p0;
     p1 \<leftarrow> nth_opt parts 1;
     m \<leftarrow> py_int p1;
     p2 \<leftarrow> nth_opt parts 2;
     let s_parts = py_split CHR ''.'' p2;
     q0 \<leftarrow> nth_opt s_parts 0;
     s \<leftarrow> py_int q0;
     q1 \<leftarrow> nth_opt s_parts 1;
     ms \<leftarrow> py_int q1;
     Some (((h * 60 + m) * 60 + s) * 1000 + ms)
   }"

text \<open>\<^verbatim>\<open>__str__\<close>\<close>

definition entry_str :: "LogEntry \<Rightarrow> string" where
  "entry_str e =
     ''['' @ timestamp e @ ''] ['' @ ljust 5 (level e) @ ''] ['' @ scope e @ ''] [''
       @ source e @ ''] ['' @ tag e @ ''] '' @ message e"

definition parse_line :: "string \<Rightarrow> nat \<Rightarrow> LogEntry option" where
  "parse_line line n =
     (case re_match LOG_PATTERN (py_strip line) of
        None \<Rightarrow> None
      | Some m \<Rightarrow>
          Some \<lparr> timestamp = group m 1, level = py_strip (group m 2), scope = group m 3,
                 source = group m 4, tag = group m 5, message = group m 6, line_num = n \<rparr>)"

text \<open>\<^verbatim>\<open>stream_log_file\<close>: the entries of the lines that parse, numbered from 1.\<close>

definition stream_log_file :: "string list \<Rightarrow> LogEntry list" where
  "stream_log_file lines =
     List.map_filter (\<lambda>(n, line). parse_line line n) (List.enumerate 1 lines)"

subsection \<open>Filter pipeline\<close>

text \<open>
  The arguments of \<^verbatim>\<open>filter_entries\<close>. A set argument that is \<open>None\<close> is unset;
  the level, tag and file tests use the truth value of the set, so an empty set is unset
  too, while the vehicle test uses \<^verbatim>\<open>is not None\<close>.
\<close>

record filter_cfg =
  levels :: "string set option"
  veh_ids :: "int set option"
  tags :: "string set option"
  files :: "string set option"
  include_global :: bool
  time_start :: "string option"
  time_end :: "string option"
  search :: "string option"

text \<open>
  The bounds of the time window, computed once before the loop. The outer \<open>None\<close> is an
  exception of \<^verbatim>\<open>int\<close>; \<open>Some None\<close> is a bound left unset (no string, an empty
  string, or a string without a colon). The fraction of the seconds is dropped.
\<close>

definition parse_bound :: "string option \<Rightarrow> int option option" where
  "parse_bound t =
     (case t of
        None \<Rightarrow> Some None
      | Some ts \<Rightarrow>
          if ts = [] then Some None
          else let parts = py_split CHR '':'' ts in
            if length parts \<ge> 2 then do {
              h \<leftarrow> py_int (parts ! 0);
              m \<leftarrow> py_int (parts ! 1);
              s \<leftarrow> (if length parts > 2 then py_int (py_split CHR ''.'' (parts ! 2) ! 0)
                    else Some 0);
              Some (Some (((h * 60 + m) * 60 + s) * 1000))
            }
            else Some None)"

text \<open>
  One function for each test of the loop body, in the order of the source. \<open>Some False\<close>
  is \<^verbatim>\<open>continue\<close>, \<open>None\<close> an exception raised while testing. The two time tests use
  the truth value of the bound, so a bound of 0 ms is skipped like an unset one.
\<close>

definition level_ok :: "filter_cfg \<Rightarrow> LogEntry \<Rightarrow> bool option" where
  "level_ok cfg e =
     (case levels cfg of
        None \<Rightarrow> Some True
      | Some L \<Rightarrow> Some (\<not> (L \<noteq> {} \<and> level e \<notin> L)))"

definition veh_ok :: "filter_cfg \<Rightarrow> LogEntry \<Rightarrow> bool option" where
  "veh_ok cfg e =
     (case veh_ids cfg of
        None \<Rightarrow> Some True
      | Some V \<Rightarrow>
          if is_global e then Some (include_global cfg)
          else (case veh_id e of None \<Rightarrow> Some False | Some v \<Rightarrow> Some (v \<in> V)))"

definition tag_ok :: "filter_cfg \<Rightarrow> LogEntry \<Rightarrow> bool option" where
  "tag_ok cfg e =
     (case tags cfg of
        None \<Rightarrow> Some True
      | Some T \<Rightarrow> Some (\<not> (T \<noteq> {} \<and> tag e \<notin> T)))"

definition file_ok :: "filter_cfg \<Rightarrow> LogEntry \<Rightarrow> bool option" where
  "file_ok cfg e =
     (case files cfg of
        None \<Rightarrow> Some True
      | Some F \<Rightarrow> Some (\<not> (F \<noteq> {} \<and> file_name e \<notin> F)))"

definition time_start_ok :: "int option \<Rightarrow> LogEntry \<Rightarrow> bool option" where
  "time_start_ok time_start_ms e =
     (case time_start_ms of
        None \<Rightarrow> Some True
      | Some b \<Rightarrow>
          if b = 0 then Some True
          else (case time_ms e of None \<Rightarrow> None | Some t \<Rightarrow> Some (\<not> t < b)))"

definition time_end_ok :: "int option \<Rightarrow> LogEntry \<Rightarrow> bool option" where
  "time_end_ok time_end_ms e =
     (case time_end_ms of
        None \<Rightarrow> Some True
      | Some b \<Rightarrow>
          if b = 0 then Some True
          else (case time_ms e of None \<Rightarrow> None | Some t \<Rightarrow> Some (\<not> t > b)))"

definition search_ok :: "filter_cfg \<Rightarrow> LogEntry \<Rightarrow> bool option" where
  "search_ok cfg e =
     (case search cfg of
        None \<Rightarrow> Some True
      | Some q \<Rightarrow>
          if q = [] then Some True
          else Some (py_in (py_lower q) (py_lower (message e))))"

definition checks :: "filter_cfg \<Rightarrow> int option \<Rightarrow> int option \<Rightarrow> (LogEntry \<Rightarrow> bool option) list"
  where
  "checks cfg time_start_ms time_end_ms =
     [level_ok cfg, veh_ok cfg, tag_ok cfg, file_ok cfg,
      time_start_ok time_start_ms, time_end_ok time_end_ms, search_ok cfg]"

text \<open>
  The tests run one after the other; the first that fails skips the entry. An exception
  in a test ends the whole iteration (the value \<open>None\<close>; the entries yielded before it
  are not kept in this model).
\<close>

fun run_checks :: "(LogEntry \<Rightarrow> bool option) list \<Rightarrow> LogEntry \<Rightarrow> bool option" where
  "run_checks [] e = Some True"
| "run_checks (c # cs) e =
     (case c e of
        None \<Rightarrow> None
      | Some b \<Rightarrow> if b then run_checks cs e else Some False)"

fun filter_loop :: "(LogEntry \<Rightarrow> bool option) list \<Rightarrow> LogEntry list \<Rightarrow> LogEntry list option"
  where
  "filter_loop cs [] = Some []"
| "filter_loop cs (e # es) =
     (case run_checks cs e of
        None \<Rightarrow> None
      | Some b \<Rightarrow> map_option (\<lambda>r. if b then e # r else r) (filter_loop cs es))"

definition filter_entries :: "filter_cfg \<Rightarrow> LogEntry list \<Rightarrow> LogEntry list option" where
  "filter_entries cfg entries = do {
     time_start_ms \<leftarrow> parse_bound (time_start cfg);
     time_end_ms \<leftarrow> parse_bound (time_end cfg);
     filter_loop (checks cfg time_start_ms time_end_ms) entries
   }"

subsection \<open>Splitting a log by vehicle\<close>

text \<open>
  An output file is the list of strings written to it, one per \<^verbatim>\<open>write\<close> call, and
  a flag that \<^verbatim>\<open>close\<close> has returned on it. The environment says which calls fail:
  opening the file of a key, writing for the input line of a given number, closing the
  file of a key. These are the exceptions of the model; an error while reading the
  input is not modelled.
\<close>

datatype sink_key = Veh int | Global

record sink =
  written :: "string list"
  closed :: bool

record io_env =
  open_fails :: "sink_key \<Rightarrow> bool"
  write_fails :: "nat \<Rightarrow> bool"
  close_fails :: "sink_key \<Rightarrow> bool"

definition no_fail :: io_env where
  "no_fail = \<lparr> open_fails = (\<lambda>k. False), write_fails = (\<lambda>n. False),
               close_fails = (\<lambda>k. False) \<rparr>"

text \<open>
  The local variables of \<^verbatim>\<open>split_by_veh\<close>. \<^verbatim>\<open>veh_files\<close> is a dictionary whose
  values are later visited in insertion order, so it is an association list.
\<close>

record split_state =
  veh_files :: "(int \<times> sink) list"
  global_file :: "sink option"
  veh_counts :: "int \<Rightarrow> nat"
  global_count :: nat
  total :: nat
  skipped :: nat

definition init_state :: split_state where
  "init_state = \<lparr> veh_files = [], global_file = None, veh_counts = (\<lambda>v. 0),
                  global_count = 0, total = 0, skipped = 0 \<rparr>"

definition new_sink :: sink where
  "new_sink = \<lparr> written = [], closed = False \<rparr>"

text \<open>
  A statement yields the new state and whether it raised; \<open>andthen\<close> runs the next
  statement unless the previous one raised.
\<close>

definition andthen ::
  "split_state \<times> bool \<Rightarrow> (split_state \<Rightarrow> split_state \<times> bool) \<Rightarrow> split_state \<times> bool" where
  "andthen r f = (if snd r then r else f (fst r))"

definition ensure_global :: "io_env \<Rightarrow> split_state \<Rightarrow> split_state \<times> bool" where
  "ensure_global env st =
     (case global_file st of
        None \<Rightarrow> if open_fails env Global then (st, True)
                else (st\<lparr>global_file := Some new_sink\<rparr>, False)
      | Some g \<Rightarrow> (st, False))"

definition write_global :: "io_env \<Rightarrow> nat \<Rightarrow> string \<Rightarrow> split_state \<Rightarrow> split_state \<times> bool"
  where
  "write_global env n text st =
     (case global_file st of
        None \<Rightarrow> (st, True)
      | Some g \<Rightarrow>
          if write_fails env n then (st, True)
          else (st\<lparr>global_file := Some (g\<lparr>written := written g @ [text]\<rparr>)\<rparr>, False))"

definition ensure_veh :: "io_env \<Rightarrow> int \<Rightarrow> split_state \<Rightarrow> split_state \<times> bool" where
  "ensure_veh env v st =
     (case map_of (veh_files st) v of
        None \<Rightarrow> if open_fails env (Veh v) then (st, True)
                else (st\<lparr>veh_files := AList.update v new_sink (veh_files st)\<rparr>, False)
      | Some f \<Rightarrow> (st, False))"

definition write_veh ::
  "io_env \<Rightarrow> nat \<Rightarrow> int \<Rightarrow> string \<Rightarrow> split_state \<Rightarrow> split_state \<times> bool" where
  "write_veh env n v text st =
     (case map_of (veh_files st) v of
        None \<Rightarrow> (st, True)
      | Some f \<Rightarrow>
          if write_fails env n then (st, True)
          else (st\<lparr>veh_files :=
                  AList.update v (f\<lparr>written := written f @ [text]\<rparr>) (veh_files st)\<rparr>, False))"

text \<open>The body of the loop for the line numbered \<open>n\<close>.\<close>

definition step :: "io_env \<Rightarrow> split_state \<Rightarrow> nat \<times> string \<Rightarrow> split_state \<times> bool" where
  "step env st0 x =
     (let n = fst x; line = snd x; st = st0\<lparr>total := total st0 + 1\<rparr> in
      case parse_line line n of
        None \<Rightarrow>
          andthen (ensure_global env st) (\<lambda>st1.
          andthen (write_global env n line st1) (\<lambda>st2.
            (st2\<lparr>skipped := skipped st2 + 1\<rparr>, False)))
      | Some entry \<Rightarrow>
          (case veh_id entry of
             Some v \<Rightarrow>
               andthen (ensure_veh env v st) (\<lambda>st1.
               andthen (write_veh env n v (entry_str entry @ [CHR 0x0A]) st1) (\<lambda>st2.
                 (st2\<lparr>veh_counts := (veh_counts st2)(v := veh_counts st2 v + 1)\<rparr>, False)))
           | None \<Rightarrow>
               andthen (ensure_global env st) (\<lambda>st1.
               andthen (write_global env n (entry_str entry @ [CHR 0x0A]) st1) (\<lambda>st2.
                 (st2\<lparr>global_count := global_count st2 + 1\<rparr>, False)))))"





text \<open>Views of the final state: the file of a key, all files, the number of writes.\<close>

definition sink_of :: "split_state \<Rightarrow> sink_key \<Rightarrow> sink option" where
  "sink_of st k = (case k of Veh v \<Rightarrow> map_of (veh_files st) v | Global \<Rightarrow> global_file st)"

definition sink_lines :: "split_state \<Rightarrow> sink_key \<Rightarrow> string list" where
  "sink_lines st k = (case sink_of st k of None \<Rightarrow> [] | Some f \<Rightarrow> written f)"

definition all_sinks :: "split_state \<Rightarrow> sink list" where
  "all_sinks st =
     map snd (veh_files st) @ (case global_file st of None \<Rightarrow> [] | Some g \<Rightarrow> [g])"

definition lines_written :: "split_state \<Rightarrow> nat" where
  "lines_written st = sum_list (map (\<lambda>f. length (written f)) (all_sinks st))"

text \<open>
  Where the specification sends a line, and what it has written there: the file of
  vehicle \<open>v\<close> when the line parses and its scope gives \<open>v\<close>, the global file otherwise;
  a parsed line is written as the text of its entry, an unparsed one verbatim.
\<close>

definition route :: "nat \<times> string \<Rightarrow> sink_key" where
  "route x =
     (case parse_line (snd x) (fst x) of
        None \<Rightarrow> Global
      | Some e \<Rightarrow> (case veh_id e of None \<Rightarrow> Global | Some v \<Rightarrow> Veh v))"

definition out_text :: "nat \<times> string \<Rightarrow> string" where
  "out_text x =
     (case parse_line (snd x) (fst x) of
        None \<Rightarrow> snd x
      | Some e \<Rightarrow> entry_str e @ [CHR 0x0A])"

text \<open>The number a string of decimal digits denotes (most significant digit first).\<close>

definition dec_val :: "string \<Rightarrow> nat" where
  "dec_val ds = foldl (\<lambda>a c. a * 10 + digit_val c) 0 ds"

section \<open>Properties of the fixed-record decoder\<close>

declare parse_log_file.simps [simp del]

lemma parse_log_file_short: "length f < RECORD_SIZE \<Longrightarrow> parse_log_file f = []"
  by (subst parse_log_file.simps) (simp add: Let_def)

lemma parse_log_file_full:
  "RECORD_SIZE \<le> length f \<Longrightarrow>
   parse_log_file f = unpack_record (take RECORD_SIZE f) # parse_log_file (drop RECORD_SIZE f)"
  by (subst parse_log_file.simps) (simp add: Let_def)

lemma load_log_short: "length f < RECORD_SIZE \<Longrightarrow> load_log f = []"
  by (simp add: load_log_def)

lemma load_log_full:
  assumes "RECORD_SIZE \<le> length f"
  shows "load_log f = take RECORD_SIZE f # load_log (drop RECORD_SIZE f)"
proof -
  have pos: "0 < RECORD_SIZE" by (simp add: RECORD_SIZE_def)
  have d: "length f div RECORD_SIZE = Suc ((length f - RECORD_SIZE) div RECORD_SIZE)"
    using assms pos by (simp add: le_div_geq)
  have s: "\<And>i. slice (Suc i * RECORD_SIZE) RECORD_SIZE f
            = slice (i * RECORD_SIZE) RECORD_SIZE (drop RECORD_SIZE f)"
    by (simp add: slice_def add.commute)
  show ?thesis
    unfolding load_log_def Let_def length_drop d
    by (simp only: upt_conv_Cons[OF zero_less_Suc] list.map map_Suc_upt[symmetric] map_map o_def s)
       (simp add: slice_def)
qed

text \<open>The read loop and the array load decode the same records.\<close>

lemma parse_log_file_load_log: "parse_log_file f = map unpack_record (load_log f)"
proof (induction f rule: parse_log_file.induct)
  case (1 f)
  show ?case
  proof (cases "length f < RECORD_SIZE")
    case True
    then show ?thesis by (simp add: parse_log_file_short load_log_short)
  next
    case False
    then have ge: "RECORD_SIZE \<le> length f" by simp
    have "\<not> length (take RECORD_SIZE f) < RECORD_SIZE" using ge by simp
    from "1.IH"[OF refl this]
    show ?thesis by (simp add: parse_log_file_full[OF ge] load_log_full[OF ge])
  qed
qed

text \<open>
  Claim C7. For a byte source of length \<open>L\<close> both decoders (the read loop of
  \<^verbatim>\<open>parse_log_file\<close> and the array load of \<^verbatim>\<open>load_log\<close>) yield exactly
  \<open>L div 28\<close> records, namely those of the consecutive full 28-byte blocks; the loop is a
  total function, so a trailing partial record is dropped and nothing is raised.
\<close>

theorem C7_record_count:
  "length (parse_log_file f) = length f div 28 \<and> length (load_log f) = length f div 28
   \<and> parse_log_file f = map (\<lambda>i. unpack_record (slice (i * 28) 28 f)) [0..<length f div 28]"
  using parse_log_file_load_log[of f]
  by (simp add: load_log_def RECORD_SIZE_def o_def)

subsection \<open>Decoding and re-encoding a record\<close>

lemma le_bytes_le_int: "le_bytes (length bs) (le_int bs) = bs"
proof (induction bs)
  case Nil
  show ?case by simp
next
  case (Cons b bs)
  have lt: "uint b < 256" using uint_lt2p[of b] by simp
  moreover have "0 \<le> uint b" by simp
  ultimately have m: "(uint b + 256 * le_int bs) mod 256 = uint b"
    and d: "(uint b + 256 * le_int bs) div 256 = le_int bs"
    by auto
  have w: "word_of_int (uint b mod 256) = b" using lt by simp
  show ?case using Cons.IH by (simp add: m d w)
qed

lemma le_int_bounds: "0 \<le> le_int bs \<and> le_int bs < 256 ^ length bs"
proof (induction bs)
  case Nil
  show ?case by simp
next
  case (Cons b bs)
  have "uint b < 256" using uint_lt2p[of b] by simp
  moreover have "0 \<le> uint b" by simp
  ultimately show ?case using Cons.IH by auto
qed

lemma pack_uint_le_int: "length bs = n \<Longrightarrow> pack_uint n (le_int bs) = Some bs"
  using le_int_bounds[of bs] le_bytes_le_int[of bs] by (auto simp: pack_uint_def)

lemma le_int_le_bytes: "0 \<le> v \<Longrightarrow> v < 256 ^ n \<Longrightarrow> le_int (le_bytes n v) = v"
proof (induction n arbitrary: v)
  case 0
  then show ?case by simp
next
  case (Suc n)
  have u: "uint (word_of_int (v mod 256) :: byte) = v mod 256"
    by (simp add: uint_word_of_int take_bit_eq_mod)
  have "0 \<le> v div 256" using Suc.prems(1) by simp
  moreover have "v div 256 < 256 ^ n" using Suc.prems by (simp add: div_less_iff_less_mult)
  ultimately have "le_int (le_bytes n (v div 256)) = v div 256" by (rule Suc.IH)
  then show ?case using u by simp
qed

lemma pack_f32_inject: "pack_f32 w = pack_f32 w' \<Longrightarrow> w = w'"
proof -
  assume a: "pack_f32 w = pack_f32 w'"
  have b: "\<And>x :: 32 word. 0 \<le> uint x \<and> uint x < 256 ^ 4"
    using uint_lt2p[where 'a = 32] by simp
  have "le_int (pack_f32 w) = uint w" "le_int (pack_f32 w') = uint w'"
    using b[of w] b[of w'] by (simp_all add: pack_f32_def le_int_le_bytes)
  with a have "uint w = uint w'" by simp
  then show ?thesis by (rule word_uint_eqI)
qed

lemma pack_f32_bits:
  assumes "length bs = 4"
  shows "pack_f32 (word_of_int (le_int bs)) = bs"
proof -
  have "0 \<le> le_int bs \<and> le_int bs < 256 ^ 4" using le_int_bounds[of bs] assms by simp
  then have "uint (word_of_int (le_int bs) :: 32 word) = le_int bs"
    by (simp add: uint_word_of_int take_bit_int_eq_self)
  then show ?thesis using le_bytes_le_int[of bs] assms by (simp add: pack_f32_def)
qed

lemma snan_changed: "is_snan w \<Longrightarrow> w OR 0x400000 \<noteq> w"
proof
  assume s: "is_snan w" and e: "w OR 0x400000 = w"
  have "bit (w OR 0x400000) 22" by (simp add: bit_or_iff)
  with e have "bit w 22" by simp
  with s show False by (simp add: is_snan_def)
qed

text \<open>Reading a float field and writing it again gives the same four bytes unless they
  hold a signalling NaN.\<close>

lemma pack_unpack_f32:
  assumes "length bs = 4"
  shows "pack_f32 (unpack_f32 bs) = bs \<longleftrightarrow> \<not> is_snan (word_of_int (le_int bs))"
proof (cases "is_snan (word_of_int (le_int bs))")
  case True
  then have "unpack_f32 bs \<noteq> word_of_int (le_int bs)"
    using snan_changed by (simp add: unpack_f32_def Let_def)
  then have "pack_f32 (unpack_f32 bs) \<noteq> pack_f32 (word_of_int (le_int bs))"
    using pack_f32_inject by blast
  then show ?thesis using True pack_f32_bits[OF assms] by simp
next
  case False
  then show ?thesis using pack_f32_bits[OF assms] by (simp add: unpack_f32_def Let_def)
qed

lemma length_pack_f32: "length (pack_f32 w) = 4"
  by (simp add: pack_f32_def numeral_eq_Suc)

lemma slice_app: "slice i n xs @ slice (i + n) m xs = slice i (n + m) xs"
  by (simp add: slice_def take_add add.commute[of i n])

lemma slices_20:
  "slice 0 4 data @ slice 4 1 data @ slice 5 1 data @ slice 6 2 data @ slice 8 4 data
     @ slice 12 4 data @ slice 16 4 data = take 20 data"
proof -
  have "slice 0 4 data @ slice 4 1 data @ slice 5 1 data @ slice 6 2 data @ slice 8 4 data
         @ slice 12 4 data @ slice 16 4 data
       = slice 0 4 data @ slice 4 1 data @ slice 5 1 data @ slice 6 2 data @ slice 8 4 data
         @ slice 12 8 data"
    using slice_app[of 12 4 data 4] by simp
  also have "\<dots> = slice 0 4 data @ slice 4 1 data @ slice 5 1 data @ slice 6 2 data
         @ slice 8 12 data"
    using slice_app[of 8 4 data 8] by simp
  also have "\<dots> = slice 0 4 data @ slice 4 1 data @ slice 5 1 data @ slice 6 14 data"
    using slice_app[of 6 2 data 12] by simp
  also have "\<dots> = slice 0 4 data @ slice 4 1 data @ slice 5 15 data"
    using slice_app[of 5 1 data 14] by simp
  also have "\<dots> = slice 0 4 data @ slice 4 16 data"
    using slice_app[of 4 1 data 15] by simp
  also have "\<dots> = slice 0 20 data"
    using slice_app[of 0 4 data 16] by simp
  finally show ?thesis by (simp add: slice_def)
qed

text \<open>The bytes a decoded record is encoded to.\<close>

lemma pack_unpack:
  assumes "length data = 28"
  shows "pack_record (unpack_record data)
         = Some (take 20 data @ pack_f32 (unpack_f32 (slice 20 4 data)) @ slice 24 1 data
                 @ [0, 0, 0])"
proof -
  have p: "pack_uint 4 (le_int (slice 0 4 data)) = Some (slice 0 4 data)"
    "pack_uint 1 (le_int (slice 4 1 data)) = Some (slice 4 1 data)"
    "pack_uint 1 (le_int (slice 5 1 data)) = Some (slice 5 1 data)"
    "pack_uint 2 (le_int (slice 6 2 data)) = Some (slice 6 2 data)"
    "pack_uint 4 (le_int (slice 8 4 data)) = Some (slice 8 4 data)"
    "pack_uint 4 (le_int (slice 12 4 data)) = Some (slice 12 4 data)"
    "pack_uint 4 (le_int (slice 16 4 data)) = Some (slice 16 4 data)"
    "pack_uint 1 (le_int (slice 24 1 data)) = Some (slice 24 1 data)"
    using assms by (simp_all add: pack_uint_le_int slice_def)
  have "pack_record (unpack_record data)
        = Some (slice 0 4 data @ slice 4 1 data @ slice 5 1 data @ slice 6 2 data
                @ slice 8 4 data @ slice 12 4 data @ slice 16 4 data
                @ pack_f32 (unpack_f32 (slice 20 4 data)) @ slice 24 1 data @ [0, 0, 0])"
    unfolding pack_record_def unpack_record_def
    by (simp only: EdgeTransitRecord.select_convs p Option.bind.simps)
  also have "\<dots> = Some ((slice 0 4 data @ slice 4 1 data @ slice 5 1 data @ slice 6 2 data
                @ slice 8 4 data @ slice 12 4 data @ slice 16 4 data)
                @ pack_f32 (unpack_f32 (slice 20 4 data)) @ slice 24 1 data @ [0, 0, 0])"
    by simp
  also have "\<dots> = Some (take 20 data @ pack_f32 (unpack_f32 (slice 20 4 data))
                @ slice 24 1 data @ [0, 0, 0])"
    by (simp only: slices_20)
  finally show ?thesis .
qed

text \<open>
  Claim C2, as amended. Decoding a 28-byte record and encoding it again succeeds. It
  gives back bytes 0 to 19 and byte 24 unchanged, gives back the four bytes of the
  length field unchanged unless they hold a signalling NaN (which comes back quiet), and
  writes zero into the three pad bytes at offset 25. So the 28 bytes are reproduced
  exactly when, and only when, the pad bytes of the input are zero and its length field
  is not a signalling NaN.
\<close>

theorem C2_roundtrip_zero_padding:
  assumes "length data = 28"
  shows "pack_record (unpack_record data)
           = Some (take 20 data @ pack_f32 (unpack_f32 (slice 20 4 data)) @ slice 24 1 data
                   @ [0, 0, 0]) \<and>
         (pack_record (unpack_record data) = Some data \<longleftrightarrow>
            drop 25 data = [0, 0, 0] \<and> \<not> is_snan (word_of_int (le_int (slice 20 4 data))))"
proof -
  let ?f = "pack_f32 (unpack_f32 (slice 20 4 data))"
  have a: "pack_record (unpack_record data)
           = Some (take 20 data @ ?f @ slice 24 1 data @ [0, 0, 0])"
    by (rule pack_unpack[OF assms])
  have l: "length (slice 20 4 data) = 4" using assms by (simp add: slice_def)
  have d: "data = take 20 data @ slice 20 4 data @ slice 24 1 data @ drop 25 data"
  proof -
    have "slice 20 4 data @ slice 24 1 data = slice 20 5 data"
      using slice_app[of 20 4 data 1] by simp
    moreover have "take 20 data @ slice 20 5 data = take 25 data"
      using slice_app[of 0 20 data 5] by (simp add: slice_def)
    ultimately have "take 20 data @ slice 20 4 data @ slice 24 1 data = take 25 data"
      by simp
    then have "(take 20 data @ slice 20 4 data @ slice 24 1 data) @ drop 25 data = data"
      by (simp only: append_take_drop_id)
    then show ?thesis by simp
  qed
  have "(take 20 data @ ?f @ slice 24 1 data @ [0, 0, 0] = data) \<longleftrightarrow>
        (?f = slice 20 4 data \<and> [0, 0, 0] = drop 25 data)"
  proof -
    have "(take 20 data @ ?f @ slice 24 1 data @ [0, 0, 0] = data) \<longleftrightarrow>
          (take 20 data @ ?f @ slice 24 1 data @ [0, 0, 0]
           = take 20 data @ slice 20 4 data @ slice 24 1 data @ drop 25 data)"
      using d by simp
    also have "\<dots> \<longleftrightarrow> (?f @ slice 24 1 data @ [0, 0, 0]
                       = slice 20 4 data @ slice 24 1 data @ drop 25 data)"
      by simp
    also have "\<dots> \<longleftrightarrow> (?f = slice 20 4 data \<and> [0, 0, 0] = drop 25 data)"
      using l length_pack_f32[of "unpack_f32 (slice 20 4 data)"] by simp
    finally show ?thesis .
  qed
  then have "(pack_record (unpack_record data) = Some data) \<longleftrightarrow>
             (?f = slice 20 4 data \<and> drop 25 data = [0, 0, 0])"
    using a by auto
  with a pack_unpack_f32[OF l] show ?thesis by auto
qed

text \<open>
  Claim C2, a record with zero pad bytes and the length 1.5: the round trip gives the
  input back.
\<close>

theorem C2_roundtrip_witness:
  "length [1, 0, 0, 0, 2, 3, 4, 0, 5, 0, 0, 0, 6, 0, 0, 0, 7, 0, 0, 0, 0, 0, 192, 63,
           9, 0, 0, 0 :: byte] = 28 \<and>
   pack_record (unpack_record [1, 0, 0, 0, 2, 3, 4, 0, 5, 0, 0, 0, 6, 0, 0, 0, 7, 0, 0, 0,
                               0, 0, 192, 63, 9, 0, 0, 0])
     = Some [1, 0, 0, 0, 2, 3, 4, 0, 5, 0, 0, 0, 6, 0, 0, 0, 7, 0, 0, 0, 0, 0, 192, 63,
             9, 0, 0, 0]"
proof -
  let ?d = "[1, 0, 0, 0, 2, 3, 4, 0, 5, 0, 0, 0, 6, 0, 0, 0, 7, 0, 0, 0, 0, 0, 192, 63,
             9, 0, 0, 0 :: byte]"
  have l: "length ?d = 28" by simp
  have p: "drop 25 ?d = [0, 0, 0]" by simp
  have n: "\<not> is_snan (word_of_int (le_int (slice 20 4 ?d)))" by code_simp
  from C2_roundtrip_zero_padding[OF l] p n l show ?thesis by blast
qed

text \<open>
  Claim C2 as stated fails in two ways. A record of zero bytes whose first pad byte is 1
  comes back with that byte set to 0. A record of zero bytes whose length field holds
  the signalling NaN 0x7F800001 comes back with the quiet NaN 0x7FC00001 in that field.
\<close>

theorem C2_padding_counterexample:
  "pack_record (unpack_record (replicate 25 0 @ [1, 0, 0])) = Some (replicate 28 0) \<and>
   pack_record (unpack_record (replicate 25 0 @ [1, 0, 0])) \<noteq> Some (replicate 25 0 @ [1, 0, 0]) \<and>
   pack_record (unpack_record (replicate 20 0 @ [0x01, 0x00, 0x80, 0x7F] @ replicate 4 0))
     = Some (replicate 20 0 @ [0x01, 0x00, 0xC0, 0x7F] @ replicate 4 0) \<and>
   pack_record (unpack_record (replicate 20 0 @ [0x01, 0x00, 0x80, 0x7F] @ replicate 4 0))
     \<noteq> Some (replicate 20 0 @ [0x01, 0x00, 0x80, 0x7F] @ replicate 4 0)"
  by code_simp

subsection \<open>Speed of a record\<close>

text \<open>
  Claim C3, as amended. For a record with \<open>exit_time \<le> enter_time\<close> the speed is the
  number 0.0: not negative, not infinite, not NaN, but a number and not an absent value.
\<close>

theorem C3_speed_zero_when_no_duration:
  "exit_time r \<le> enter_time r \<Longrightarrow> speed r = Flt 0"
  by (simp add: speed_def transit_time_def)

text \<open>Claim C3 at the record decoded from 28 zero bytes, whose two times are both 0.\<close>

theorem C3_speed_witness:
  "exit_time (unpack_record (replicate 28 0)) \<le> enter_time (unpack_record (replicate 28 0))
   \<and> speed (unpack_record (replicate 28 0)) = Flt 0"
proof -
  have h: "exit_time (unpack_record (replicate 28 0)) \<le> enter_time (unpack_record (replicate 28 0))"
    by (simp add: unpack_record_def slice_def)
  show ?thesis using h C3_speed_zero_when_no_duration[OF h] by simp
qed

text \<open>
  Claim C3 as stated fails: a record that leaves the edge 5 ms before it enters it has
  the speed 0.0, the sentinel the claim excludes, where the claim wants no value.
\<close>

theorem C3_sentinel_counterexample:
  "exit_time \<lparr> EdgeTransitRecord.timestamp = 10, worker_id = 0, fab_id = 0, edge_id = 1,
               EdgeTransitRecord.veh_id = 7, enter_time = 10, exit_time = 5,
               edge_length = 0x3FC00000, edge_type = 0 \<rparr>
     \<le> enter_time \<lparr> EdgeTransitRecord.timestamp = 10, worker_id = 0, fab_id = 0, edge_id = 1,
               EdgeTransitRecord.veh_id = 7, enter_time = 10, exit_time = 5,
               edge_length = 0x3FC00000, edge_type = 0 \<rparr>
   \<and> speed \<lparr> EdgeTransitRecord.timestamp = 10, worker_id = 0, fab_id = 0, edge_id = 1,
               EdgeTransitRecord.veh_id = 7, enter_time = 10, exit_time = 5,
               edge_length = 0x3FC00000, edge_type = 0 \<rparr> = Flt 0"
  by (simp add: speed_def transit_time_def)

section \<open>Properties of the checkpoint-flag decoder\<close>

lemma flag_names_spec: "flag_names flags = spec_set_bit_names flags"
proof -
  have b: "\<And>n. (flags AND 2 ^ n \<noteq> 0) = bit flags n"
    by (simp add: bit_iff_and_push_bit_not_eq_0 push_bit_eq_mult)
  have "(flags AND 1 \<noteq> 0) = bit flags 0" "(flags AND 2 \<noteq> 0) = bit flags 1"
    "(flags AND 4 \<noteq> 0) = bit flags 2" "(flags AND 8 \<noteq> 0) = bit flags 3"
    using b[of 0] b[of 1] b[of 2] b[of 3] by simp_all
  then show ?thesis
    by (simp add: flag_names_def spec_set_bit_names_def FLAG_TABLE_def)
qed

text \<open>
  Claim C8, as amended. The value 0 decodes to \<^verbatim>\<open>COMPLETED\<close> and 0x05 to
  \<^verbatim>\<open>LOCK_REQUEST|LOCK_RELEASE\<close>; a nonzero value with at least one of the four named
  bits set decodes to the names of its set bits, in table order, joined by a bar; a
  nonzero value with none of the four bits set decodes to \<^verbatim>\<open>UNKNOWN(<value>)\<close>.
\<close>

theorem C8_decode_checkpoint_flags:
  "decode_checkpoint_flags 0 = ''COMPLETED'' \<and>
   decode_checkpoint_flags 5 = ''LOCK_REQUEST|LOCK_RELEASE'' \<and>
   decode_checkpoint_flags flags =
     (if flags \<noteq> 0 \<and> spec_set_bit_names flags = []
      then ''UNKNOWN('' @ py_str_int flags @ '')''
      else spec_flag_label flags)"
proof -
  have a: "decode_checkpoint_flags 0 = ''COMPLETED''"
    by (simp add: decode_checkpoint_flags_def)
  have b: "decode_checkpoint_flags 5 = ''LOCK_REQUEST|LOCK_RELEASE''"
    by code_simp
  have c: "decode_checkpoint_flags flags =
     (if flags \<noteq> 0 \<and> spec_set_bit_names flags = []
      then ''UNKNOWN('' @ py_str_int flags @ '')''
      else spec_flag_label flags)"
    by (simp add: decode_checkpoint_flags_def spec_flag_label_def flag_names_spec Let_def)
  show ?thesis using a b c by blast
qed

text \<open>
  Claim C8 as stated fails at the nonzero value 16: none of the four bits is set, the
  names of the set bits joined by a bar are the empty string, and the decoder returns
  \<^verbatim>\<open>UNKNOWN(16)\<close>.
\<close>

theorem C8_unknown_counterexample:
  "(16 :: int) \<noteq> 0 \<and> decode_checkpoint_flags 16 = ''UNKNOWN(16)'' \<and>
   py_join ''|'' (spec_set_bit_names 16) = [] \<and>
   decode_checkpoint_flags 16 \<noteq> py_join ''|'' (spec_set_bit_names 16)"
  by code_simp

section \<open>Properties of the line decoder\<close>

subsection \<open>Digits, \<^verbatim>\<open>int\<close> and \<^verbatim>\<open>split\<close>\<close>

lemma digit_not_int_space: "is_digit c \<Longrightarrow> \<not> int_space c"
  by (auto simp: is_digit_def int_space_def)

lemma digit_not_sign: "is_digit c \<Longrightarrow> c \<noteq> CHR ''-'' \<and> c \<noteq> CHR ''+''"
  by (auto simp: is_digit_def code_def)

lemma digit_not_sep: "is_digit c \<Longrightarrow> c \<noteq> CHR '':'' \<and> c \<noteq> CHR ''.''"
  by (auto simp: is_digit_def code_def)

lemma digits_acc_all:
  "list_all is_digit cs \<Longrightarrow>
   digits_acc a cs = Some (foldl (\<lambda>a c. a * 10 + digit_val c) a cs)"
  by (induction cs arbitrary: a) simp_all

lemma int_digits_all:
  "ds \<noteq> [] \<Longrightarrow> list_all is_digit ds \<Longrightarrow> int_digits ds = Some (dec_val ds)"
  by (cases ds) (simp_all add: int_digits_def dec_val_def digits_acc_all)

lemma strip_digits:
  assumes "ds \<noteq> []" "list_all is_digit ds"
  shows "rev (dropWhile int_space (rev (dropWhile int_space ds))) = ds"
proof -
  obtain c cs where ds: "ds = c # cs" using assms(1) by (cases ds) auto
  then have "\<not> int_space c" using assms(2) digit_not_int_space by simp
  then have a: "dropWhile int_space ds = ds" using ds by simp
  obtain d rs where r: "rev ds = d # rs" using assms(1) by (cases "rev ds") auto
  then have "d \<in> set ds" by (metis list.set_intros(1) set_rev)
  then have "\<not> int_space d" using assms(2) digit_not_int_space by (auto simp: list_all_iff)
  then have "dropWhile int_space (rev ds) = rev ds" using r by simp
  with a show ?thesis by simp
qed

lemma py_int_digits:
  assumes "ds \<noteq> []" "list_all is_digit ds"
  shows "py_int ds = Some (int (dec_val ds))"
proof -
  obtain c cs where ds: "ds = c # cs" using assms(1) by (cases ds) auto
  then have "c \<noteq> CHR ''-'' \<and> c \<noteq> CHR ''+''" using assms(2) digit_not_sign by simp
  then show ?thesis
    unfolding py_int_def strip_digits[OF assms] Let_def
    using int_digits_all[OF assms] ds by simp
qed

lemma py_split_no_sep: "sep \<notin> set a \<Longrightarrow> py_split sep a = [a]"
  by (induction a) auto

lemma py_split_at_sep:
  "sep \<notin> set a \<Longrightarrow> py_split sep (a @ sep # b) = a # py_split sep b"
  by (induction a) auto

lemma digits_no_sep:
  "list_all is_digit ds \<Longrightarrow> CHR '':'' \<notin> set ds \<and> CHR ''.'' \<notin> set ds"
  using digit_not_sep by (auto simp: list_all_iff)

subsection \<open>Milliseconds of a timestamp\<close>

lemma time_ms_digits:
  assumes ts: "timestamp e = h @ CHR '':'' # m @ CHR '':'' # s @ CHR ''.'' # k"
    and h: "h \<noteq> []" "list_all is_digit h"
    and m: "m \<noteq> []" "list_all is_digit m"
    and s: "s \<noteq> []" "list_all is_digit s"
    and k: "k \<noteq> []" "list_all is_digit k"
  shows "time_ms e =
         Some (((int (dec_val h) * 60 + int (dec_val m)) * 60 + int (dec_val s)) * 1000
               + int (dec_val k))"
proof -
  have sk: "CHR '':'' \<notin> set (s @ CHR ''.'' # k)"
    using digits_no_sep[OF s(2)] digits_no_sep[OF k(2)] by simp
  have parts: "py_split CHR '':'' (timestamp e) = [h, m, s @ CHR ''.'' # k]"
    unfolding ts
    using digits_no_sep[OF h(2)] digits_no_sep[OF m(2)] sk
    by (simp add: py_split_at_sep py_split_no_sep)
  have sparts: "py_split CHR ''.'' (s @ CHR ''.'' # k) = [s, k]"
    using digits_no_sep[OF s(2)] digits_no_sep[OF k(2)]
    by (simp add: py_split_at_sep py_split_no_sep)
  show ?thesis
    unfolding time_ms_def parts Let_def
    by (simp add: nth_opt_def sparts py_int_digits h m s k)
qed

subsection \<open>What the line pattern accepts\<close>

lemma item_matches_sound: "(c, r) \<in> set (item_matches i s) \<Longrightarrow> s = c @ r"
  by (cases i) (auto split: list.splits if_splits)

lemma items_matches_sound: "(c, r) \<in> set (items_matches is s) \<Longrightarrow> s = c @ r"
proof (induction "is" arbitrary: s c)
  case Nil
  then show ?case by simp
next
  case (Cons i "is")
  then obtain c1 r1 c2 where a: "(c1, r1) \<in> set (item_matches i s)"
    and b: "(c2, r) \<in> set (items_matches is r1)" and c: "c = c1 @ c2"
    by auto
  from item_matches_sound[OF a] Cons.IH[OF b] c show ?case by simp
qed

lemma items_Rep_mem:
  "(c, r) \<in> set (items_matches (Rep n p # is) s) \<Longrightarrow>
   \<exists>c'. n \<le> length s \<and> list_all p (take n s) \<and> c = take n s @ c'
        \<and> (c', r) \<in> set (items_matches is (drop n s))"
  by (auto split: if_splits)

lemma items_Lit_mem:
  "(c, r) \<in> set (items_matches (Lit x # is) s) \<Longrightarrow>
   \<exists>t c'. s = x # t \<and> c = x # c' \<and> (c', r) \<in> set (items_matches is t)"
  by (auto split: list.splits if_splits)

text \<open>The first group of a match is two digits, two digits, two digits and three digits.\<close>

lemma timestamp_items_shape:
  assumes "(c, r) \<in> set (items_matches TIMESTAMP_ITEMS s)"
  shows "\<exists>h m sec k. c = h @ CHR '':'' # m @ CHR '':'' # sec @ CHR ''.'' # k
           \<and> length h = 2 \<and> list_all is_digit h \<and> length m = 2 \<and> list_all is_digit m
           \<and> length sec = 2 \<and> list_all is_digit sec \<and> length k = 3 \<and> list_all is_digit k"
proof -
  from items_Rep_mem[OF assms[unfolded TIMESTAMP_ITEMS_def]]
  obtain c1 where h: "2 \<le> length s" "list_all is_digit (take 2 s)" and c1: "c = take 2 s @ c1"
    and r1: "(c1, r) \<in> set (items_matches [Lit CHR '':'', Rep 2 is_digit, Lit CHR '':'',
               Rep 2 is_digit, Lit CHR ''.'', Rep 3 is_digit] (drop 2 s))"
    by blast
  from items_Lit_mem[OF r1]
  obtain t1 c2 where c2: "c1 = CHR '':'' # c2"
    and r2: "(c2, r) \<in> set (items_matches [Rep 2 is_digit, Lit CHR '':'',
               Rep 2 is_digit, Lit CHR ''.'', Rep 3 is_digit] t1)"
    by blast
  from items_Rep_mem[OF r2]
  obtain c3 where m: "2 \<le> length t1" "list_all is_digit (take 2 t1)" and c3: "c2 = take 2 t1 @ c3"
    and r3: "(c3, r) \<in> set (items_matches [Lit CHR '':'', Rep 2 is_digit, Lit CHR ''.'',
               Rep 3 is_digit] (drop 2 t1))"
    by blast
  from items_Lit_mem[OF r3]
  obtain t2 c4 where c4: "c3 = CHR '':'' # c4"
    and r4: "(c4, r) \<in> set (items_matches [Rep 2 is_digit, Lit CHR ''.'', Rep 3 is_digit] t2)"
    by blast
  from items_Rep_mem[OF r4]
  obtain c5 where sec: "2 \<le> length t2" "list_all is_digit (take 2 t2)"
    and c5: "c4 = take 2 t2 @ c5"
    and r5: "(c5, r) \<in> set (items_matches [Lit CHR ''.'', Rep 3 is_digit] (drop 2 t2))"
    by blast
  from items_Lit_mem[OF r5]
  obtain t3 c6 where c6: "c5 = CHR ''.'' # c6"
    and r6: "(c6, r) \<in> set (items_matches [Rep 3 is_digit] t3)"
    by blast
  from items_Rep_mem[OF r6]
  obtain c7 where k: "3 \<le> length t3" "list_all is_digit (take 3 t3)"
    and c7: "c6 = take 3 t3 @ c7" and r7: "(c7, r) \<in> set (items_matches [] (drop 3 t3))"
    by blast
  from r7 have "c7 = []" by simp
  with c1 c2 c3 c4 c5 c6 c7
  have "c = take 2 s @ CHR '':'' # take 2 t1 @ CHR '':'' # take 2 t2 @ CHR ''.'' # take 3 t3"
    by simp
  moreover have "length (take 2 s) = 2" "length (take 2 t1) = 2" "length (take 2 t2) = 2"
    "length (take 3 t3) = 3"
    using h(1) m(1) sec(1) k(1) by simp_all
  ultimately show ?thesis using h(2) m(2) sec(2) k(2) by blast
qed

lemma re_match_Some: "re_match pat s = Some gs \<Longrightarrow> \<exists>r. (gs, r) \<in> set (rx_matches pat s)"
  by (auto simp: re_match_def split: list.splits)

lemma rx_lit_group:
  "(gs, r') \<in> set (rx_matches (Item (Lit x) # Group is # rs) s) \<Longrightarrow>
   \<exists>t c r gs'. s = x # t \<and> (c, r) \<in> set (items_matches is t) \<and> gs = c # gs'"
  by (auto split: list.splits if_splits)

lemma LOG_PATTERN_head:
  "\<exists>rs. LOG_PATTERN = Item (Lit CHR ''['') # Group TIMESTAMP_ITEMS # rs"
  by (simp add: LOG_PATTERN_def)

lemma log_match_shape:
  assumes "re_match LOG_PATTERN s = Some gs"
  shows "\<exists>t c r. s = CHR ''['' # t \<and> (c, r) \<in> set (items_matches TIMESTAMP_ITEMS t)
           \<and> group gs 1 = c"
proof -
  obtain rs where p: "LOG_PATTERN = Item (Lit CHR ''['') # Group TIMESTAMP_ITEMS # rs"
    using LOG_PATTERN_head by blast
  obtain r' where "(gs, r') \<in> set (rx_matches LOG_PATTERN s)"
    using re_match_Some[OF assms] by blast
  then show ?thesis
    unfolding p using rx_lit_group[of gs r' "CHR ''[''" TIMESTAMP_ITEMS rs s]
    by (auto simp: group_def)
qed

lemma parse_line_Some:
  "parse_line line n = Some e \<Longrightarrow>
   \<exists>gs. re_match LOG_PATTERN (py_strip line) = Some gs \<and> timestamp e = group gs 1"
  by (auto simp: parse_line_def split: option.splits)

text \<open>Every parsed entry carries a timestamp of the shape dd:dd:dd.ddd.\<close>

lemma parse_line_timestamp:
  assumes "parse_line line n = Some e"
  shows "\<exists>h m sec k r. py_strip line = CHR ''['' # timestamp e @ r
           \<and> timestamp e = h @ CHR '':'' # m @ CHR '':'' # sec @ CHR ''.'' # k
           \<and> length h = 2 \<and> list_all is_digit h \<and> length m = 2 \<and> list_all is_digit m
           \<and> length sec = 2 \<and> list_all is_digit sec \<and> length k = 3 \<and> list_all is_digit k"
proof -
  obtain gs where g: "re_match LOG_PATTERN (py_strip line) = Some gs"
    and ts: "timestamp e = group gs 1"
    using parse_line_Some[OF assms] by blast
  obtain t c r where s: "py_strip line = CHR ''['' # t"
    and cr: "(c, r) \<in> set (items_matches TIMESTAMP_ITEMS t)" and c: "group gs 1 = c"
    using log_match_shape[OF g] by blast
  have "t = c @ r" using items_matches_sound[OF cr] .
  with s ts c have a: "py_strip line = CHR ''['' # timestamp e @ r" by simp
  obtain h m sec k where b: "c = h @ CHR '':'' # m @ CHR '':'' # sec @ CHR ''.'' # k"
    "length h = 2" "list_all is_digit h" "length m = 2" "list_all is_digit m"
    "length sec = 2" "list_all is_digit sec" "length k = 3" "list_all is_digit k"
    using timestamp_items_shape[OF cr] by blast
  have "timestamp e = h @ CHR '':'' # m @ CHR '':'' # sec @ CHR ''.'' # k"
    using ts c b(1) by simp
  with a b show ?thesis by blast
qed


lemma digit_val_le: "is_digit c \<Longrightarrow> digit_val c \<le> 9"
  by (auto simp: is_digit_def digit_val_def)

lemma dec_val_two: "length h = 2 \<Longrightarrow> list_all is_digit h \<Longrightarrow> dec_val h < 100"
proof -
  assume "length h = 2" and d: "list_all is_digit h"
  then obtain a b where h: "h = [a, b]"
    by (cases h; cases "tl h") auto
  from d h have "digit_val a \<le> 9" "digit_val b \<le> 9" using digit_val_le by auto
  then show ?thesis by (simp add: h dec_val_def)
qed

text \<open>
  Claim C5. For every entry whose timestamp is \<open>H:M:S.mmm\<close>, each field a non-empty run
  of decimal digits of any length, \<^verbatim>\<open>time_ms\<close> returns (raises nothing) and its value
  is \<open>((H * 60 + M) * 60 + S) * 1000 + mmm\<close> with the fields read as decimal numbers. The
  value is non-negative, the hour field enters as the number it denotes, with no
  reduction modulo 24, and so every further hour adds 3600000 ms. Every entry that
  \<^verbatim>\<open>parse_line\<close> returns has such a timestamp and so such a value.
\<close>

theorem C5_time_ms_formula:
  assumes "timestamp e = h @ CHR '':'' # m @ CHR '':'' # s @ CHR ''.'' # k"
    and "h \<noteq> []" "list_all is_digit h"
    and "m \<noteq> []" "list_all is_digit m"
    and "s \<noteq> []" "list_all is_digit s"
    and "k \<noteq> []" "list_all is_digit k"
  shows "(\<exists>t. time_ms e = Some t
           \<and> t = ((int (dec_val h) * 60 + int (dec_val m)) * 60 + int (dec_val s)) * 1000
                 + int (dec_val k)
           \<and> 0 \<le> t \<and> int (dec_val h) * 3600000 \<le> t) \<and>
         (\<forall>line n p. parse_line line n = Some p \<longrightarrow>
            (\<exists>h' m' s' k'. timestamp p = h' @ CHR '':'' # m' @ CHR '':'' # s' @ CHR ''.'' # k'
               \<and> time_ms p = Some (((int (dec_val h') * 60 + int (dec_val m')) * 60
                                      + int (dec_val s')) * 1000 + int (dec_val k'))))"
proof -
  let ?t = "((int (dec_val h) * 60 + int (dec_val m)) * 60 + int (dec_val s)) * 1000
            + int (dec_val k)"
  have "time_ms e = Some ?t" using assms by (rule time_ms_digits)
  moreover have "0 \<le> ?t" by simp
  moreover have "int (dec_val h) * 3600000 \<le> ?t" by simp
  ultimately have a: "\<exists>t. time_ms e = Some t \<and> t = ?t \<and> 0 \<le> t
                        \<and> int (dec_val h) * 3600000 \<le> t"
    by blast
  have b: "\<forall>line n p. parse_line line n = Some p \<longrightarrow>
            (\<exists>h' m' s' k'. timestamp p = h' @ CHR '':'' # m' @ CHR '':'' # s' @ CHR ''.'' # k'
               \<and> time_ms p = Some (((int (dec_val h') * 60 + int (dec_val m')) * 60
                                      + int (dec_val s')) * 1000 + int (dec_val k')))"
  proof (intro allI impI)
    fix line n p
    assume "parse_line line n = Some p"
    from parse_line_timestamp[OF this]
    obtain h' m' s' k' where
      ts: "timestamp p = h' @ CHR '':'' # m' @ CHR '':'' # s' @ CHR ''.'' # k'"
      and l: "length h' = 2" "length m' = 2" "length s' = 2" "length k' = 3"
      and d: "list_all is_digit h'" "list_all is_digit m'" "list_all is_digit s'"
        "list_all is_digit k'"
      by blast
    from l have ne: "h' \<noteq> []" "m' \<noteq> []" "s' \<noteq> []" "k' \<noteq> []" by auto
    have "time_ms p = Some (((int (dec_val h') * 60 + int (dec_val m')) * 60
                             + int (dec_val s')) * 1000 + int (dec_val k'))"
      by (rule time_ms_digits[OF ts ne(1) d(1) ne(2) d(2) ne(3) d(3) ne(4) d(4)])
    with ts show "\<exists>h' m' s' k'. timestamp p = h' @ CHR '':'' # m' @ CHR '':'' # s' @ CHR ''.'' # k'
               \<and> time_ms p = Some (((int (dec_val h') * 60 + int (dec_val m')) * 60
                                      + int (dec_val s')) * 1000 + int (dec_val k'))"
      by blast
  qed
  show ?thesis using a b by (rule conjI)
qed

text \<open>
  Claim C5 at the timestamp 25:01:02.003 of a parsed line: 25 hours are 90000000 ms,
  not the 3600000 ms of 1 o'clock.
\<close>

theorem C5_time_ms_witness:
  "map_option timestamp
     (parse_line ''[25:01:02.003] [INFO ] [veh:7] [F.ts:1] [Nav] go'' 1)
     = Some ''25:01:02.003'' \<and>
   map_option time_ms
     (parse_line ''[25:01:02.003] [INFO ] [veh:7] [F.ts:1] [Nav] go'' 1)
     = Some (Some 90062003)"
proof -
  let ?e = "\<lparr> timestamp = ''25:01:02.003'', level = ''INFO'', scope = ''veh:7'',
              source = ''F.ts:1'', tag = ''Nav'', message = ''go'', line_num = 1 \<rparr>"
  have p: "parse_line ''[25:01:02.003] [INFO ] [veh:7] [F.ts:1] [Nav] go'' 1 = Some ?e"
    by code_simp
  have ts: "timestamp ?e = ''25'' @ CHR '':'' # ''01'' @ CHR '':'' # ''02'' @ CHR ''.'' # ''003''"
    by simp
  have d: "list_all is_digit ''25''" "list_all is_digit ''01''" "list_all is_digit ''02''"
    "list_all is_digit ''003''"
    by code_simp+
  have v: "dec_val ''25'' = 25" "dec_val ''01'' = 1" "dec_val ''02'' = 2" "dec_val ''003'' = 3"
    by code_simp+
  from conjunct1[OF C5_time_ms_formula[OF ts _ d(1) _ d(2) _ d(3) _ d(4)]]
  have "time_ms ?e = Some 90062003" by (simp add: v)
  with p show ?thesis by simp
qed

text \<open>A line whose hour field is not exactly two digits long does not parse.\<close>

lemma hour_width_rejected:
  assumes s: "py_strip line = CHR ''['' # h @ CHR '':'' # rest"
    and d: "list_all is_digit h" and l: "length h \<noteq> 2"
  shows "parse_line line n = None"
proof (rule ccontr)
  assume "parse_line line n \<noteq> None"
  then obtain e where e: "parse_line line n = Some e" by auto
  obtain h' m sec k r where s': "py_strip line = CHR ''['' # timestamp e @ r"
    and ts: "timestamp e = h' @ CHR '':'' # m @ CHR '':'' # sec @ CHR ''.'' # k"
    and l': "length h' = 2" and d': "list_all is_digit h'"
    using parse_line_timestamp[OF e] by blast
  let ?tail = "m @ CHR '':'' # sec @ CHR ''.'' # k @ r"
  have eq: "h @ CHR '':'' # rest = h' @ CHR '':'' # ?tail"
    using s s' ts by simp
  show False
  proof (cases "length h < 2")
    case True
    have "(h @ CHR '':'' # rest) ! length h = CHR '':''" by simp
    moreover have "(h' @ CHR '':'' # ?tail) ! length h = h' ! length h"
      using True l' by (simp add: nth_append)
    moreover have "is_digit (h' ! length h)"
      using d' True l' by (simp add: list_all_length)
    ultimately show False using eq digit_not_sep by metis
  next
    case False
    with l have gt: "2 < length h" by simp
    have "(h' @ CHR '':'' # ?tail) ! 2 = CHR '':''" using l' by (simp add: nth_append)
    moreover have "(h @ CHR '':'' # rest) ! 2 = h ! 2" using gt by (simp add: nth_append)
    moreover have "is_digit (h ! 2)" using d gt by (simp add: list_all_length)
    ultimately show False using eq digit_not_sep by metis
  qed
qed

section \<open>Properties of the split pass\<close>


lemma andthen_raised: "andthen (st, True) f = (st, True)"
  by (simp add: andthen_def)

lemma sum_update_present:
  fixes g :: "'a \<Rightarrow> nat"
  shows "map_of fs v = Some f \<Longrightarrow> g f' = Suc (g f) \<Longrightarrow>
   sum_list (map g (map snd (AList.update v f' fs))) = Suc (sum_list (map g (map snd fs)))"
  by (induction fs) (auto split: if_splits)

lemma sum_update_absent:
  fixes g :: "'a \<Rightarrow> nat"
  shows "map_of fs v = None \<Longrightarrow>
   sum_list (map g (map snd (AList.update v f' fs))) = sum_list (map g (map snd fs)) + g f'"
  by (induction fs) (auto split: if_splits)

text \<open>Writing to the global file when nothing fails.\<close>

lemma global_write_no_fail:
  "andthen (ensure_global no_fail st) (\<lambda>st1. andthen (write_global no_fail n text st1) k)
   = k (st\<lparr>global_file :=
            Some ((case global_file st of None \<Rightarrow> new_sink | Some g \<Rightarrow> g)
                    \<lparr>written := sink_lines st Global @ [text]\<rparr>)\<rparr>)"
  by (cases "global_file st")
     (simp_all add: ensure_global_def write_global_def no_fail_def andthen_def new_sink_def
        sink_lines_def sink_of_def)

text \<open>Writing to the file of vehicle \<open>v\<close> when nothing fails.\<close>

lemma veh_write_no_fail:
  "andthen (ensure_veh no_fail v st) (\<lambda>st1. andthen (write_veh no_fail n v text st1) k)
   = k (st\<lparr>veh_files :=
            AList.update v ((case map_of (veh_files st) v of None \<Rightarrow> new_sink | Some f \<Rightarrow> f)
                              \<lparr>written := sink_lines st (Veh v) @ [text]\<rparr>) (veh_files st)\<rparr>)"
  by (cases "map_of (veh_files st) v")
     (simp_all add: ensure_veh_def write_veh_def no_fail_def andthen_def new_sink_def
        sink_lines_def sink_of_def update_conv')

lemma veh_write_sum:
  "sum_list (map (\<lambda>f. length (written f)) (map snd
      (AList.update v ((case map_of fs v of None \<Rightarrow> new_sink | Some f \<Rightarrow> f)
          \<lparr>written := (case map_of fs v of None \<Rightarrow> [] | Some f \<Rightarrow> written f) @ [text]\<rparr>) fs)))
   = Suc (sum_list (map (\<lambda>f. length (written f)) (map snd fs)))"
proof (cases "map_of fs v")
  case None
  then show ?thesis
    using sum_update_absent[OF None, of "\<lambda>f. length (written f)"
        "new_sink\<lparr>written := [text]\<rparr>"]
    by simp
next
  case (Some f)
  then show ?thesis
    using sum_update_present[OF Some, of "\<lambda>f. length (written f)"
        "f\<lparr>written := written f @ [text]\<rparr>"]
    by simp
qed

text \<open>
  One pass of the loop body when nothing fails: it does not raise, it appends the text
  of the line to the file the line is routed to and to no other, and it counts the line.
\<close>

lemma step_no_fail:
  "\<exists>st'. step no_fail st x = (st', False)
     \<and> (\<forall>k. sink_lines st' k = sink_lines st k @ (if route x = k then [out_text x] else []))
     \<and> lines_written st' = Suc (lines_written st) \<and> total st' = Suc (total st)
     \<and> skipped st' = skipped st + (if parse_line (snd x) (fst x) = None then 1 else 0)"
proof (cases "parse_line (snd x) (fst x)")
  case None
  let ?st' = "fst (step no_fail st x)"
  have s: "step no_fail st x = (?st', False)"
    using None by (simp add: step_def Let_def global_write_no_fail)
  have "\<And>k. sink_lines ?st' k = sink_lines st k @ (if route x = k then [out_text x] else [])"
    subgoal for k
      using None
      by (cases k) (simp_all add: step_def Let_def global_write_no_fail sink_lines_def
          sink_of_def route_def out_text_def)
    done
  moreover have "lines_written ?st' = Suc (lines_written st)"
    using None
    by (cases "global_file st")
       (simp_all add: step_def Let_def global_write_no_fail lines_written_def all_sinks_def
          sink_lines_def sink_of_def new_sink_def)
  moreover have "total ?st' = Suc (total st)" "skipped ?st' = skipped st + 1"
    using None by (simp_all add: step_def Let_def global_write_no_fail)
  ultimately show ?thesis using s None by auto
next
  case (Some entry)
  note parsed = this
  let ?st' = "fst (step no_fail st x)"
  show ?thesis
  proof (cases "veh_id entry")
    case None
    have s: "step no_fail st x = (?st', False)"
      using parsed None by (simp add: step_def Let_def global_write_no_fail)
    have "\<And>k. sink_lines ?st' k = sink_lines st k @ (if route x = k then [out_text x] else [])"
      subgoal for k
        using parsed None
        by (cases k) (simp_all add: step_def Let_def global_write_no_fail sink_lines_def
            sink_of_def route_def out_text_def)
      done
    moreover have "lines_written ?st' = Suc (lines_written st)"
      using parsed None
      by (cases "global_file st")
         (simp_all add: step_def Let_def global_write_no_fail lines_written_def all_sinks_def
            sink_lines_def sink_of_def new_sink_def)
    moreover have "total ?st' = Suc (total st)" "skipped ?st' = skipped st"
      using parsed None by (simp_all add: step_def Let_def global_write_no_fail)
    ultimately show ?thesis using s parsed by auto
  next
    case (Some v)
    have s: "step no_fail st x = (?st', False)"
      using parsed Some by (simp add: step_def Let_def veh_write_no_fail)
    have "\<And>k. sink_lines ?st' k = sink_lines st k @ (if route x = k then [out_text x] else [])"
      subgoal for k
        using parsed Some
        by (cases k) (simp_all add: step_def Let_def veh_write_no_fail sink_lines_def
            sink_of_def route_def out_text_def update_conv')
      done
    moreover have "lines_written ?st' = Suc (lines_written st)"
      using parsed Some veh_write_sum[of v "veh_files st"]
      by (simp add: step_def Let_def veh_write_no_fail lines_written_def all_sinks_def
          sink_lines_def sink_of_def)
    moreover have "total ?st' = Suc (total st)" "skipped ?st' = skipped st"
      using parsed Some by (simp_all add: step_def Let_def veh_write_no_fail)
    ultimately show ?thesis using s parsed by auto
  qed
qed


subsection \<open>The \<^verbatim>\<open>finally\<close> block\<close>











text \<open>
  Claim C10. A line whose stripped text starts with a bracket, a run of digits that is
  not exactly two digits long, and a colon does not parse; the split pass counts it as
  skipped and routes it to the global file. Conversely the hour field of every parsed
  entry is two digits, so its value is at most 99.
\<close>

theorem C10_hour_field_two_digits:
  assumes "py_strip line = CHR ''['' # h @ CHR '':'' # rest"
    and "list_all is_digit h" and "length h \<noteq> 2"
  shows "parse_line line n = None \<and>
         skipped (fst (step no_fail st (n, line))) = skipped st + 1 \<and>
         route (n, line) = Global \<and>
         (\<forall>l' n' e. parse_line l' n' = Some e \<longrightarrow>
            (\<exists>hh r. timestamp e = hh @ CHR '':'' # r \<and> length hh = 2 \<and> list_all is_digit hh
                     \<and> dec_val hh < 100))"
proof -
  have a: "parse_line line n = None" using assms by (rule hour_width_rejected)
  have b: "skipped (fst (step no_fail st (n, line))) = skipped st + 1"
    using step_no_fail[of st "(n, line)"] a by auto
  have c: "route (n, line) = Global" using a by (simp add: route_def)
  have d: "\<forall>l' n' e. parse_line l' n' = Some e \<longrightarrow>
            (\<exists>hh r. timestamp e = hh @ CHR '':'' # r \<and> length hh = 2 \<and> list_all is_digit hh
                     \<and> dec_val hh < 100)"
  proof (intro allI impI)
    fix l' n' e
    assume "parse_line l' n' = Some e"
    from parse_line_timestamp[OF this]
    obtain hh m sec k where "timestamp e = hh @ CHR '':'' # m @ CHR '':'' # sec @ CHR ''.'' # k"
      "length hh = 2" "list_all is_digit hh"
      by blast
    then show "\<exists>hh r. timestamp e = hh @ CHR '':'' # r \<and> length hh = 2 \<and> list_all is_digit hh
                     \<and> dec_val hh < 100"
      using dec_val_two by blast
  qed
  show ?thesis using a b c d by blast
qed

text \<open>Claim C10 at a line with the three-digit hour field 100.\<close>

theorem C10_hour_field_witness:
  "py_strip ''[100:00:00.000] [INFO ] [veh:7] [F.ts:1] [Nav] go''
     = CHR ''['' # ''100'' @ CHR '':'' # ''00:00.000] [INFO ] [veh:7] [F.ts:1] [Nav] go'' \<and>
   list_all is_digit ''100'' \<and> length ''100'' \<noteq> 2 \<and>
   parse_line ''[100:00:00.000] [INFO ] [veh:7] [F.ts:1] [Nav] go'' 1 = None \<and>
   skipped (fst (step no_fail init_state
       (1, ''[100:00:00.000] [INFO ] [veh:7] [F.ts:1] [Nav] go''))) = 1"
proof -
  have s: "py_strip ''[100:00:00.000] [INFO ] [veh:7] [F.ts:1] [Nav] go''
     = CHR ''['' # ''100'' @ CHR '':'' # ''00:00.000] [INFO ] [veh:7] [F.ts:1] [Nav] go''"
    by code_simp
  have d: "list_all is_digit ''100''" by code_simp
  have l: "length ''100'' \<noteq> 2" by simp
  have i: "skipped init_state = 0" by (simp add: init_state_def)
  from C10_hour_field_two_digits[OF s d l, of 1 init_state] s d l i
  show ?thesis by simp
qed

section \<open>Properties of the filter pipeline\<close>



text \<open>
  What the two time tests decide: a bound that is unset or 0 ms lets every entry pass;
  any other bound is compared inclusively.
\<close>

lemma time_window_behaviour:
  assumes "time_ms e = Some t"
  shows "(time_start_ok a e = Some True \<and> time_end_ok b e = Some True) \<longleftrightarrow>
         (case a of None \<Rightarrow> True | Some s \<Rightarrow> s = 0 \<or> s \<le> t) \<and>
         (case b of None \<Rightarrow> True | Some en \<Rightarrow> en = 0 \<or> t \<le> en)"
  using assms by (auto simp: time_start_ok_def time_end_ok_def split: option.splits)

text \<open>
  Claim C6 fails on the code for a window whose end is 0 ms. With
  \<^verbatim>\<open>time_end = "00:00:00"\<close> the end bound is computed as 0, the truth-value test
  \<^verbatim>\<open>if time_end_ms and ...\<close> skips the comparison, and an entry stamped 00:00:01.000
  (1000 ms, after the end of the window) passes the filter.
\<close>

theorem C6_zero_end_bound_ignored:
  "parse_line ''[00:00:01.000] [INFO ] [global] [A.ts:1] [T] x'' 1
     = Some \<lparr> timestamp = ''00:00:01.000'', level = ''INFO'', scope = ''global'',
              source = ''A.ts:1'', tag = ''T'', message = ''x'', line_num = 1 \<rparr> \<and>
   time_ms \<lparr> timestamp = ''00:00:01.000'', level = ''INFO'', scope = ''global'',
             source = ''A.ts:1'', tag = ''T'', message = ''x'', line_num = 1 \<rparr> = Some 1000 \<and>
   parse_bound (Some ''00:00:00'') = Some (Some 0) \<and>
   filter_entries \<lparr> levels = None, veh_ids = None, tags = None, files = None,
                    include_global = True, time_start = None,
                    time_end = Some ''00:00:00'', search = None \<rparr>
     [\<lparr> timestamp = ''00:00:01.000'', level = ''INFO'', scope = ''global'',
        source = ''A.ts:1'', tag = ''T'', message = ''x'', line_num = 1 \<rparr>]
     = Some [\<lparr> timestamp = ''00:00:01.000'', level = ''INFO'', scope = ''global'',
               source = ''A.ts:1'', tag = ''T'', message = ''x'', line_num = 1 \<rparr>]"
  by code_simp



end
